theory Spec2Isabelle
  imports Complex_Main
begin

section \<open>Data model\<close>

text \<open>
  The layout engine of the image sequence extension is the function
  \<^verbatim>\<open>calculate_transforms\<close> of \<^verbatim>\<open>core.py\<close>. Python floats are modelled as
  real numbers (no rounding, no infinities, no NaN); Python integers as \<^typ>\<open>int\<close>.
  An exception is a value \<open>Inl e\<close> of the result type.
\<close>

datatype error = ZeroDivisionError | ValueError | OSError

text \<open>\<^verbatim>\<open>class Config\<close> of \<^verbatim>\<open>config.py\<close>.\<close>

record config =
  path_glob :: string
  expanded_glob :: "string list"
  ppi :: int
  gap_pct :: real
  curve_pct :: real
  images_per_row :: int

text \<open>
  What the code reads of a \<^verbatim>\<open>PIL.Image.Image\<close>: \<^verbatim>\<open>image.filename\<close> and
  \<^verbatim>\<open>image.size\<close>, the pair (width, height) in pixels.
\<close>

record image =
  filename :: string
  size_px :: "int \<times> int"

text \<open>\<^verbatim>\<open>Gf.Vec3d\<close> and its three components.\<close>

type_synonym vec3d = "real \<times> real \<times> real"

definition vec_x :: "vec3d \<Rightarrow> real" where
  "vec_x v = fst v"

definition vec_y :: "vec3d \<Rightarrow> real" where
  "vec_y v = fst (snd v)"

definition vec_z :: "vec3d \<Rightarrow> real" where
  "vec_z v = snd (snd v)"

text \<open>\<^verbatim>\<open>class Transform\<close>, with the defaults of its class attributes.\<close>

record transform =
  translate :: vec3d
  scale :: vec3d
  rotate_xyz :: vec3d

definition Transform :: transform where
  "Transform = \<lparr>translate = (0, 0, 0), scale = (1, 1, 1), rotate_xyz = (0, 0, 0)\<rparr>"

section \<open>Python primitives\<close>

text \<open>True division \<^verbatim>\<open>a / b\<close>: raises on a zero divisor.\<close>

definition truediv :: "real \<Rightarrow> real \<Rightarrow> error + real" where
  "truediv a b = (if b = 0 then Inl ZeroDivisionError else Inr (a / b))"

text \<open>\<^verbatim>\<open>max\<close> of a list: raises \<^verbatim>\<open>ValueError\<close> on the empty list.\<close>

fun max_list :: "int list \<Rightarrow> error + int" where
  "max_list [] = Inl ValueError"
| "max_list (x # xs) = Inr (fold max xs x)"

definition tau :: real where
  "tau = 2 * pi"

text \<open>\<^verbatim>\<open>math.degrees\<close>.\<close>

definition degrees :: "real \<Rightarrow> real" where
  "degrees x = x * (180 / pi)"

section \<open>The layout computation\<close>

definition INCHES_TO_CM :: real where
  "INCHES_TO_CM = 1.54"

text \<open>
  The locals of \<^verbatim>\<open>calculate_transforms\<close> that are fixed before its loop starts
  (lines 75 to 99). The local \<^verbatim>\<open>images_per_row\<close> is \<open>images_per_row_eff\<close> here,
  since the configuration has a field of that name.
\<close>

record extents =
  max_image_width_cm :: real
  max_image_height_cm :: real
  images_per_row_eff :: int
  total_rows :: int
  image_gap_cm :: real
  total_width_cm :: real
  total_height_cm :: real
  left_most_cm :: real
  top_most_cm :: real

definition measure_images :: "config \<Rightarrow> image list \<Rightarrow> error + extents" where
  "measure_images config images =
    (case max_list (map (\<lambda>img. fst (size_px img)) images) of
       Inl e \<Rightarrow> Inl e
     | Inr max_image_width_px \<Rightarrow>
    (case truediv (real_of_int max_image_width_px) (real_of_int (ppi config)) of
       Inl e \<Rightarrow> Inl e
     | Inr max_image_width_in \<Rightarrow>
    (case max_list (map (\<lambda>img. snd (size_px img)) images) of
       Inl e \<Rightarrow> Inl e
     | Inr max_image_height_px \<Rightarrow>
    (case truediv (real_of_int max_image_height_px) (real_of_int (ppi config)) of
       Inl e \<Rightarrow> Inl e
     | Inr max_image_height_in \<Rightarrow>
    (let image_count = int (length images);
         width_cm = max_image_width_in * INCHES_TO_CM;
         height_cm = max_image_height_in * INCHES_TO_CM;
         per_row = (if images_per_row config < 1 then image_count
                    else images_per_row config)
     in
    (case truediv (real_of_int image_count) (real_of_int per_row) of
       Inl e \<Rightarrow> Inl e
     | Inr ratio \<Rightarrow>
    (let rows = \<lceil>ratio\<rceil>;
         gap_cm = gap_pct config * width_cm;
         width_total =
           max (width_cm * real_of_int (per_row - 1)
                + gap_cm * real_of_int (max (per_row - 1) 0)) 0;
         height_total =
           real_of_int (rows - 1) * height_cm
           + gap_cm * real_of_int (max (rows - 1) 0)
     in Inr \<lparr>max_image_width_cm = width_cm,
             max_image_height_cm = height_cm,
             images_per_row_eff = per_row,
             total_rows = rows,
             image_gap_cm = gap_cm,
             total_width_cm = width_total,
             total_height_cm = height_total,
             left_most_cm = - 0.5 * width_total,
             top_most_cm = 0.5 * height_total\<rparr>)))))))"

text \<open>The locals that the loop changes (lines 101 to 105).\<close>

record cursor =
  left_current_cm :: real
  top_current_cm :: real
  seen :: int
  transforms :: "string \<rightharpoonup> transform"

definition initial_cursor :: "extents \<Rightarrow> cursor" where
  "initial_cursor ext =
    \<lparr>left_current_cm = left_most_cm ext, top_current_cm = top_most_cm ext,
     seen = 0, transforms = Map.empty\<rparr>"

text \<open>Lines 107 to 110: start a new row once the current one is full.\<close>

definition wrap_row :: "extents \<Rightarrow> cursor \<Rightarrow> cursor" where
  "wrap_row ext c =
    (if seen c > images_per_row_eff ext - 1
     then c\<lparr>left_current_cm := left_most_cm ext,
            top_current_cm := top_current_cm c - (max_image_height_cm ext + image_gap_cm ext),
            seen := 0\<rparr>
     else c)"

text \<open>Line 121: the position of the image within its row.\<close>

definition row_t :: "extents \<Rightarrow> cursor \<Rightarrow> error + real" where
  "row_t ext c =
    (if total_width_cm ext > 0
     then truediv (left_current_cm c - left_most_cm ext) (total_width_cm ext)
     else Inr 0)"

text \<open>Lines 122 and 123.\<close>

definition phase_of :: "real \<Rightarrow> real" where
  "phase_of t = (1.0 - t) * (0.5 * tau) + 0.25 * tau"

text \<open>Lines 111 to 133: the transform of one image, at the cursor after the wrap.\<close>

definition image_transform :: "config \<Rightarrow> extents \<Rightarrow> cursor \<Rightarrow> image \<Rightarrow> error + transform" where
  "image_transform config ext c img =
    (case truediv (real_of_int (fst (size_px img))) (real_of_int (ppi config)) of
       Inl e \<Rightarrow> Inl e
     | Inr image_width_in \<Rightarrow>
    (case truediv (real_of_int (snd (size_px img))) (real_of_int (ppi config)) of
       Inl e \<Rightarrow> Inl e
     | Inr image_height_in \<Rightarrow>
    (case row_t ext c of
       Inl e \<Rightarrow> Inl e
     | Inr t \<Rightarrow>
    (let image_width_cm = image_width_in * INCHES_TO_CM;
         image_height_cm = image_height_in * INCHES_TO_CM;
         phase = phase_of t;
         amp = 0.5 * total_width_cm ext;
         x = left_current_cm c * (1.0 - curve_pct config)
             + curve_pct config * amp * sin phase;
         z = 0 + curve_pct config * amp * cos phase;
         angle = - curve_pct config * degrees (- phase + 0.5 * tau)
     in Inr (Transform\<lparr>scale := (image_width_cm, image_height_cm, 1),
                        translate := (x, top_current_cm c, z),
                        rotate_xyz := (0, angle, 0)\<rparr>)))))"

text \<open>One round of the loop (lines 107 to 138).\<close>

definition place_image :: "config \<Rightarrow> extents \<Rightarrow> cursor \<Rightarrow> image \<Rightarrow> error + cursor" where
  "place_image config ext c0 img =
    (let c = wrap_row ext c0 in
     case image_transform config ext c img of
       Inl e \<Rightarrow> Inl e
     | Inr tr \<Rightarrow>
         Inr (c\<lparr>transforms := (transforms c)(filename img \<mapsto> tr),
                left_current_cm := left_current_cm c + (max_image_width_cm ext + image_gap_cm ext),
                seen := seen c + 1\<rparr>))"

text \<open>The loop over the images, in input order.\<close>

fun place_images :: "config \<Rightarrow> extents \<Rightarrow> image list \<Rightarrow> cursor \<Rightarrow> error + cursor" where
  "place_images config ext [] c = Inr c"
| "place_images config ext (img # rest) c =
    (case place_image config ext c img of
       Inl e \<Rightarrow> Inl e
     | Inr c' \<Rightarrow> place_images config ext rest c')"

text \<open>
  \<^verbatim>\<open>calculate_transforms\<close> from line 71 on, for the list of images that line 70
  has opened.
\<close>

definition calculate_transforms_images ::
    "config \<Rightarrow> image list \<Rightarrow> error + (string \<rightharpoonup> transform)" where
  "calculate_transforms_images config images =
    (if length images = 0 then Inr Map.empty
     else
       case measure_images config images of
         Inl e \<Rightarrow> Inl e
       | Inr ext \<Rightarrow>
           (case place_images config ext images (initial_cursor ext) of
              Inl e \<Rightarrow> Inl e
            | Inr c \<Rightarrow> Inr (transforms c)))"

text \<open>
  Line 70 opens every path of \<^verbatim>\<open>config.expanded_glob\<close>; \<open>Image_open\<close> stands for
  \<^verbatim>\<open>PIL.Image.open\<close>, which is not part of this repository and may fail.
\<close>

fun open_images :: "(string \<Rightarrow> error + image) \<Rightarrow> string list \<Rightarrow> error + image list" where
  "open_images Image_open [] = Inr []"
| "open_images Image_open (image_path_str # rest) =
    (case Image_open image_path_str of
       Inl e \<Rightarrow> Inl e
     | Inr img \<Rightarrow>
         (case open_images Image_open rest of
            Inl e \<Rightarrow> Inl e
          | Inr images \<Rightarrow> Inr (img # images)))"

definition calculate_transforms ::
    "(string \<Rightarrow> error + image) \<Rightarrow> config \<Rightarrow> error + (string \<rightharpoonup> transform)" where
  "calculate_transforms Image_open config =
    (case open_images Image_open (expanded_glob config) of
       Inl e \<Rightarrow> Inl e
     | Inr images \<Rightarrow> calculate_transforms_images config images)"

text \<open>
  The cursor with which round \<open>i\<close> of the loop computes the transform of image \<open>i\<close>:
  the loop run over the first \<open>i\<close> images, then the wrap of lines 107 to 110.
\<close>

definition cursor_at :: "config \<Rightarrow> extents \<Rightarrow> image list \<Rightarrow> nat \<Rightarrow> error + cursor" where
  "cursor_at config ext images i =
    (case place_images config ext (take i images) (initial_cursor ext) of
       Inl e \<Rightarrow> Inl e
     | Inr c \<Rightarrow> Inr (wrap_row ext c))"

text \<open>
  The transform that round \<open>i\<close> of the loop stores for image \<open>i\<close>, and the row
  position \<open>t\<close> it computes on the way (line 121).
\<close>

definition placed :: "config \<Rightarrow> image list \<Rightarrow> nat \<Rightarrow> error + transform" where
  "placed config images i =
    (case measure_images config images of
       Inl e \<Rightarrow> Inl e
     | Inr ext \<Rightarrow>
         (case cursor_at config ext images i of
            Inl e \<Rightarrow> Inl e
          | Inr c \<Rightarrow> image_transform config ext c (images ! i)))"

definition row_position :: "config \<Rightarrow> image list \<Rightarrow> nat \<Rightarrow> error + real" where
  "row_position config images i =
    (case measure_images config images of
       Inl e \<Rightarrow> Inl e
     | Inr ext \<Rightarrow>
         (case cursor_at config ext images i of
            Inl e \<Rightarrow> Inl e
          | Inr c \<Rightarrow> row_t ext c))"

text \<open>Concrete inputs: a configuration from its four layout parameters, and an image.\<close>

definition params :: "int \<Rightarrow> real \<Rightarrow> real \<Rightarrow> int \<Rightarrow> config" where
  "params p g c k =
    \<lparr>path_glob = [], expanded_glob = [], ppi = p, gap_pct = g, curve_pct = c,
     images_per_row = k\<rparr>"

definition picture :: "string \<Rightarrow> int \<Rightarrow> int \<Rightarrow> image" where
  "picture name w h = \<lparr>filename = name, size_px = (w, h)\<rparr>"

section \<open>Division and the extents\<close>

lemma truediv_nonzero: "b \<noteq> 0 \<Longrightarrow> truediv a b = Inr (a / b)"
  by (simp add: truediv_def)

lemma truediv_zero: "truediv a 0 = Inl ZeroDivisionError"
  by (simp add: truediv_def)

lemma max_list_nonempty: "xs \<noteq> [] \<Longrightarrow> \<exists>m. max_list xs = Inr m"
  by (cases xs) simp_all

lemma measure_images_zero_ppi:
  assumes "images \<noteq> []" and "ppi config = 0"
  shows "measure_images config images = Inl ZeroDivisionError"
proof -
  from assms(1) obtain m where "max_list (map (\<lambda>img. fst (size_px img)) images) = Inr m"
    using max_list_nonempty [of "map (\<lambda>img. fst (size_px img)) images"] by auto
  then show ?thesis
    using assms(2) by (simp add: measure_images_def truediv_zero)
qed

lemma measure_images_ok:
  assumes "images \<noteq> []" and "ppi config \<noteq> 0"
  shows "\<exists>ext. measure_images config images = Inr ext
    \<and> images_per_row_eff ext =
        (if images_per_row config < 1 then int (length images) else images_per_row config)
    \<and> 1 \<le> images_per_row_eff ext
    \<and> image_gap_cm ext = gap_pct config * max_image_width_cm ext
    \<and> total_width_cm ext =
        max ((max_image_width_cm ext + image_gap_cm ext) * real_of_int (images_per_row_eff ext - 1)) 0
    \<and> left_most_cm ext = - 0.5 * total_width_cm ext
    \<and> top_most_cm ext = 0.5 * total_height_cm ext"
proof -
  from assms(1) obtain w where w: "max_list (map (\<lambda>img. fst (size_px img)) images) = Inr w"
    using max_list_nonempty [of "map (\<lambda>img. fst (size_px img)) images"] by auto
  from assms(1) obtain h where h: "max_list (map (\<lambda>img. snd (size_px img)) images) = Inr h"
    using max_list_nonempty [of "map (\<lambda>img. snd (size_px img)) images"] by auto
  have len: "1 \<le> int (length images)"
    using assms(1) by (cases images) simp_all
  define k where "k = (if images_per_row config < 1 then int (length images) else images_per_row config)"
  have k: "1 \<le> k" using len by (simp add: k_def)
  then have k0: "real_of_int k \<noteq> 0" by simp
  have km: "max (k - 1) 0 = k - 1" using k by simp
  obtain ext where ext: "measure_images config images = Inr ext"
    and f1: "images_per_row_eff ext = k"
    and f2: "image_gap_cm ext = gap_pct config * max_image_width_cm ext"
    and f3: "total_width_cm ext =
        max (max_image_width_cm ext * real_of_int (k - 1) + image_gap_cm ext * real_of_int (k - 1)) 0"
    and f4: "left_most_cm ext = - 0.5 * total_width_cm ext"
    and f5: "top_most_cm ext = 0.5 * total_height_cm ext"
    using w h assms(2) k0 km
    by (simp add: measure_images_def truediv_nonzero Let_def k_def [symmetric])
  have "total_width_cm ext =
      max ((max_image_width_cm ext + image_gap_cm ext) * real_of_int (k - 1)) 0"
    by (simp only: f3 distrib_right)
  with ext f1 f2 f4 f5 k show ?thesis
    unfolding k_def by auto
qed

section \<open>The loop\<close>

lemma row_t_total:
  "row_t ext c = Inr (if total_width_cm ext > 0
      then (left_current_cm c - left_most_cm ext) / total_width_cm ext else 0)"
  by (simp add: row_t_def truediv_def)

lemma image_transform_ok:
  assumes "ppi config \<noteq> 0"
  shows "\<exists>tr. image_transform config ext c img = Inr tr"
  using assms by (simp add: image_transform_def truediv_nonzero row_t_total Let_def)

lemma image_transform_zero_ppi:
  assumes "ppi config = 0"
  shows "image_transform config ext c img = Inl ZeroDivisionError"
  using assms by (simp add: image_transform_def truediv_zero)

lemma place_image_ok:
  assumes "ppi config \<noteq> 0"
  shows "\<exists>tr. image_transform config ext (wrap_row ext c) img = Inr tr
    \<and> place_image config ext c img =
        Inr ((wrap_row ext c)\<lparr>transforms := (transforms (wrap_row ext c))(filename img \<mapsto> tr),
              left_current_cm := left_current_cm (wrap_row ext c)
                + (max_image_width_cm ext + image_gap_cm ext),
              seen := seen (wrap_row ext c) + 1\<rparr>)"
proof -
  from image_transform_ok [OF assms] obtain tr
    where "image_transform config ext (wrap_row ext c) img = Inr tr" by blast
  then show ?thesis by (simp add: place_image_def Let_def)
qed

lemma place_images_total:
  assumes "ppi config \<noteq> 0"
  shows "\<exists>c'. place_images config ext images c = Inr c'"
proof (induction images arbitrary: c)
  case Nil
  show ?case by simp
next
  case (Cons img rest)
  from place_image_ok [OF assms] obtain c1 where "place_image config ext c img = Inr c1"
    by blast
  with Cons.IH [of c1] show ?case by simp
qed

lemma place_images_append:
  "place_images config ext (xs @ ys) c =
    (case place_images config ext xs c of
       Inl e \<Rightarrow> Inl e
     | Inr c' \<Rightarrow> place_images config ext ys c')"
  by (induction xs arbitrary: c) (simp_all split: sum.splits)

lemma place_image_transforms:
  assumes "place_image config ext c img = Inr c'"
  shows "\<exists>tr. image_transform config ext (wrap_row ext c) img = Inr tr
    \<and> transforms c' = (transforms c)(filename img \<mapsto> tr)"
  using assms by (auto simp: place_image_def Let_def wrap_row_def split: sum.splits)

lemma place_images_dom:
  assumes "place_images config ext images c = Inr c'"
  shows "dom (transforms c') = dom (transforms c) \<union> filename ` set images"
  using assms
proof (induction images arbitrary: c)
  case Nil
  then show ?case by simp
next
  case (Cons img rest)
  from Cons.prems obtain c1 where c1: "place_image config ext c img = Inr c1"
    and rest: "place_images config ext rest c1 = Inr c'"
    by (auto split: sum.splits)
  from place_image_transforms [OF c1] have "dom (transforms c1) = insert (filename img) (dom (transforms c))"
    by auto
  with Cons.IH [OF rest] show ?case by auto
qed

lemma place_images_other_key:
  assumes "place_images config ext images c = Inr c'" and "key \<notin> filename ` set images"
  shows "transforms c' key = transforms c key"
  using assms
proof (induction images arbitrary: c)
  case Nil
  then show ?case by simp
next
  case (Cons img rest)
  from Cons.prems(1) obtain c1 where c1: "place_image config ext c img = Inr c1"
    and rest: "place_images config ext rest c1 = Inr c'"
    by (auto split: sum.splits)
  from place_image_transforms [OF c1] Cons.prems(2) have "transforms c1 key = transforms c key"
    by auto
  with Cons.IH [OF rest] Cons.prems(2) show ?case by simp
qed

lemma place_images_ran:
  assumes "place_images config ext images c = Inr c'"
    and "\<And>c0 img tr. image_transform config ext c0 img = Inr tr \<Longrightarrow> P tr"
    and "\<And>tr. tr \<in> ran (transforms c) \<Longrightarrow> P tr"
    and "tr \<in> ran (transforms c')"
  shows "P tr"
  using assms(1,3,4)
proof (induction images arbitrary: c)
  case Nil
  then show ?case by simp
next
  case (Cons img rest)
  from Cons.prems(1) obtain c1 where c1: "place_image config ext c img = Inr c1"
    and rest: "place_images config ext rest c1 = Inr c'"
    by (auto split: sum.splits)
  from place_image_transforms [OF c1] obtain t1
    where t1: "image_transform config ext (wrap_row ext c) img = Inr t1"
      and upd: "transforms c1 = (transforms c)(filename img \<mapsto> t1)" by blast
  have "P u" if "u \<in> ran (transforms c1)" for u
  proof -
    from that upd obtain key where "((transforms c)(filename img \<mapsto> t1)) key = Some u"
      by (auto simp: ran_def)
    then have "u = t1 \<or> u \<in> ran (transforms c)"
      by (auto simp: ran_def split: if_splits)
    then show ?thesis using assms(2) [OF t1] Cons.prems(2) by blast
  qed
  from Cons.IH [OF rest this Cons.prems(3)] show ?case .
qed

lemma next_column_wraps:
  fixes i k :: int
  assumes "1 \<le> k" and "i mod k + 1 > k - 1"
  shows "(i + 1) mod k = 0 \<and> (i + 1) div k = i div k + 1"
proof -
  have "i mod k < k" using assms(1) by simp
  with assms(2) have r: "i mod k = k - 1" by linarith
  define q where "q = i div k"
  have "i = k * q + i mod k" by (simp add: q_def)
  with r have "i = k * q + (k - 1)" by simp
  then have eq: "i + 1 = k * (q + 1) + 0" by (simp add: algebra_simps)
  have "0 < k" using assms(1) by simp
  from int_div_pos_eq [OF eq _ this] int_mod_pos_eq [OF eq _ this] show ?thesis by (simp add: q_def)
qed

lemma next_column_stays:
  fixes i k :: int
  assumes "1 \<le> k" and "\<not> i mod k + 1 > k - 1"
  shows "(i + 1) mod k = i mod k + 1 \<and> (i + 1) div k = i div k"
proof -
  have lo: "0 \<le> i mod k + 1" using assms(1) by (simp add: add_nonneg_nonneg)
  have hi: "i mod k + 1 < k" using assms(2) by linarith
  have "i = k * (i div k) + i mod k" by simp
  then have eq: "i + 1 = k * (i div k) + (i mod k + 1)" by simp
  from int_div_pos_eq [OF eq lo hi] int_mod_pos_eq [OF eq lo hi] show ?thesis by simp
qed

text \<open>
  The cursor of round \<open>i\<close> in closed form: the image is in column \<open>i mod k\<close> of row
  \<open>i div k\<close>, for \<open>k\<close> images per row.
\<close>

lemma cursor_closed_form:
  assumes ppi: "ppi config \<noteq> 0" and k: "1 \<le> images_per_row_eff ext"
    and i: "i \<le> length images"
  shows "\<exists>c0. place_images config ext (take i images) (initial_cursor ext) = Inr c0
    \<and> seen (wrap_row ext c0) = int i mod images_per_row_eff ext
    \<and> top_current_cm (wrap_row ext c0) =
        top_most_cm ext - real_of_int (int i div images_per_row_eff ext)
          * (max_image_height_cm ext + image_gap_cm ext)
    \<and> left_current_cm (wrap_row ext c0) =
        left_most_cm ext + real_of_int (int i mod images_per_row_eff ext)
          * (max_image_width_cm ext + image_gap_cm ext)"
  using i
proof (induction i)
  case 0
  show ?case using k by (simp add: initial_cursor_def wrap_row_def)
next
  case (Suc i)
  then have lt: "i < length images" by simp
  from Suc.IH lt obtain c0
    where run: "place_images config ext (take i images) (initial_cursor ext) = Inr c0"
      and s: "seen (wrap_row ext c0) = int i mod images_per_row_eff ext"
      and t: "top_current_cm (wrap_row ext c0) =
        top_most_cm ext - real_of_int (int i div images_per_row_eff ext)
          * (max_image_height_cm ext + image_gap_cm ext)"
      and l: "left_current_cm (wrap_row ext c0) =
        left_most_cm ext + real_of_int (int i mod images_per_row_eff ext)
          * (max_image_width_cm ext + image_gap_cm ext)"
    by auto
  define c where "c = wrap_row ext c0"
  from place_image_ok [OF ppi, of ext c0 "images ! i"] obtain tr
    where step: "place_image config ext c0 (images ! i) =
        Inr (c\<lparr>transforms := (transforms c)(filename (images ! i) \<mapsto> tr),
              left_current_cm := left_current_cm c
                + (max_image_width_cm ext + image_gap_cm ext),
              seen := seen c + 1\<rparr>)"
    unfolding c_def by blast
  define c1 where "c1 = c\<lparr>transforms := (transforms c)(filename (images ! i) \<mapsto> tr),
              left_current_cm := left_current_cm c
                + (max_image_width_cm ext + image_gap_cm ext),
              seen := seen c + 1\<rparr>"
  have run1: "place_images config ext (take (Suc i) images) (initial_cursor ext) = Inr c1"
    using run step lt by (simp add: take_Suc_conv_app_nth place_images_append c1_def)
  have int_suc: "int (Suc i) = int i + 1" by simp
  show ?case
  proof (cases "int i mod images_per_row_eff ext + 1 > images_per_row_eff ext - 1")
    case True
    from next_column_wraps [OF k True]
    have m: "int (Suc i) mod images_per_row_eff ext = 0"
      and d: "int (Suc i) div images_per_row_eff ext = int i div images_per_row_eff ext + 1"
      unfolding int_suc by simp_all
    have w: "seen c1 > images_per_row_eff ext - 1"
      using True s by (simp add: c1_def c_def)
    have "seen (wrap_row ext c1) = int (Suc i) mod images_per_row_eff ext"
      using w unfolding m by (simp add: wrap_row_def)
    moreover have "left_current_cm (wrap_row ext c1) =
        left_most_cm ext + real_of_int (int (Suc i) mod images_per_row_eff ext)
          * (max_image_width_cm ext + image_gap_cm ext)"
      using w unfolding m by (simp add: wrap_row_def)
    moreover have "top_current_cm (wrap_row ext c1) =
        top_current_cm c - (max_image_height_cm ext + image_gap_cm ext)"
      using w by (simp add: wrap_row_def c1_def)
    then have "top_current_cm (wrap_row ext c1) =
        top_most_cm ext - real_of_int (int (Suc i) div images_per_row_eff ext)
          * (max_image_height_cm ext + image_gap_cm ext)"
      using t unfolding d c_def [symmetric] by (simp add: algebra_simps)
    ultimately show ?thesis
      using run1 by blast
  next
    case False
    from next_column_stays [OF k False]
    have m: "int (Suc i) mod images_per_row_eff ext = int i mod images_per_row_eff ext + 1"
      and d: "int (Suc i) div images_per_row_eff ext = int i div images_per_row_eff ext"
      unfolding int_suc by simp_all
    have w: "\<not> seen c1 > images_per_row_eff ext - 1"
      using False s by (simp add: c1_def c_def)
    then have same: "wrap_row ext c1 = c1" by (simp add: wrap_row_def)
    have "seen (wrap_row ext c1) = int (Suc i) mod images_per_row_eff ext"
      using s unfolding same m c_def [symmetric] by (simp add: c1_def)
    moreover have "left_current_cm (wrap_row ext c1) =
        left_most_cm ext + real_of_int (int (Suc i) mod images_per_row_eff ext)
          * (max_image_width_cm ext + image_gap_cm ext)"
      using l unfolding same m c_def [symmetric] by (simp add: c1_def algebra_simps)
    moreover have "top_current_cm (wrap_row ext c1) =
        top_most_cm ext - real_of_int (int (Suc i) div images_per_row_eff ext)
          * (max_image_height_cm ext + image_gap_cm ext)"
      using t unfolding same d c_def [symmetric] by (simp add: c1_def)
    ultimately show ?thesis
      using run1 by blast
  qed
qed

section \<open>Single rounds and the returned mapping\<close>

lemmas layout_simps = calculate_transforms_images_def measure_images_def place_image_def
  image_transform_def row_t_def truediv_def wrap_row_def initial_cursor_def phase_of_def
  INCHES_TO_CM_def Transform_def Let_def params_def picture_def cursor_at_def placed_def
  row_position_def degrees_def tau_def

lemma image_transform_value:
  assumes "ppi config \<noteq> 0" and "row_t ext c = Inr t"
  shows "image_transform config ext c img =
    Inr \<lparr>translate =
           (left_current_cm c * (1 - curve_pct config)
              + curve_pct config * (0.5 * total_width_cm ext) * sin (phase_of t),
            top_current_cm c,
            curve_pct config * (0.5 * total_width_cm ext) * cos (phase_of t)),
         scale =
           (real_of_int (fst (size_px img)) / real_of_int (ppi config) * INCHES_TO_CM,
            real_of_int (snd (size_px img)) / real_of_int (ppi config) * INCHES_TO_CM,
            1),
         rotate_xyz = (0, - curve_pct config * degrees (- phase_of t + 0.5 * tau), 0)\<rparr>"
  using assms by (simp add: image_transform_def truediv_nonzero Let_def Transform_def)

lemma later_names_differ:
  assumes "distinct (map filename images)" and "i < length images"
  shows "filename (images ! i) \<notin> filename ` set (drop (Suc i) images)"
proof -
  have "images = take i images @ images ! i # drop (Suc i) images"
    using assms(2) by (rule id_take_nth_drop)
  then have "distinct (map filename (take i images @ images ! i # drop (Suc i) images))"
    using assms(1) by simp
  then show ?thesis by auto
qed

text \<open>With pairwise distinct file names, the returned mapping holds at the name of image i what round i has stored.\<close>

lemma placed_is_returned:
  assumes ppi: "ppi config \<noteq> 0" and dist: "distinct (map filename images)"
    and i: "i < length images"
  shows "\<exists>m tr. calculate_transforms_images config images = Inr m
    \<and> placed config images i = Inr tr \<and> m (filename (images ! i)) = Some tr"
proof -
  from i have ne: "images \<noteq> []" by auto
  from measure_images_ok [OF ne ppi] obtain ext
    where ext: "measure_images config images = Inr ext" by blast
  from place_images_total [OF ppi] obtain c0
    where c0: "place_images config ext (take i images) (initial_cursor ext) = Inr c0" by blast
  from place_images_total [OF ppi] obtain c1
    where c1: "place_image config ext c0 (images ! i) = Inr c1"
    using place_image_ok [OF ppi] by blast
  from place_images_total [OF ppi] obtain c2
    where c2: "place_images config ext (drop (Suc i) images) c1 = Inr c2" by blast
  from place_image_transforms [OF c1] obtain tr
    where tr: "image_transform config ext (wrap_row ext c0) (images ! i) = Inr tr"
      and upd: "transforms c1 = (transforms c0)(filename (images ! i) \<mapsto> tr)" by blast
  have split: "images = take i images @ images ! i # drop (Suc i) images"
    using i by (rule id_take_nth_drop)
  have "place_images config ext (take i images @ images ! i # drop (Suc i) images)
      (initial_cursor ext) = Inr c2"
    using c0 c1 c2 by (simp add: place_images_append)
  with split have run: "place_images config ext images (initial_cursor ext) = Inr c2" by simp
  have "transforms c2 (filename (images ! i)) = transforms c1 (filename (images ! i))"
    using place_images_other_key [OF c2 later_names_differ [OF dist i]] .
  with upd have look: "transforms c2 (filename (images ! i)) = Some tr" by simp
  have "calculate_transforms_images config images = Inr (transforms c2)"
    using ne ext run by (simp add: calculate_transforms_images_def)
  moreover have "placed config images i = Inr tr"
    using ext c0 tr by (simp add: placed_def cursor_at_def)
  ultimately show ?thesis using look by blast
qed

lemma calculate_transforms_images_ok:
  assumes "ppi config \<noteq> 0 \<or> images = []"
  shows "\<exists>m. calculate_transforms_images config images = Inr m"
proof (cases "images = []")
  case True
  then show ?thesis by (simp add: calculate_transforms_images_def)
next
  case False
  with assms have ppi: "ppi config \<noteq> 0" by simp
  from measure_images_ok [OF False ppi] obtain ext
    where ext: "measure_images config images = Inr ext" by blast
  from place_images_total [OF ppi] obtain c
    where "place_images config ext images (initial_cursor ext) = Inr c" by blast
  with ext False show ?thesis by (simp add: calculate_transforms_images_def)
qed

text \<open>What round i works with, in closed form.\<close>

lemma round_closed_form:
  assumes ppi: "ppi config \<noteq> 0" and i: "i < length images"
  shows "\<exists>ext c t tr. measure_images config images = Inr ext
    \<and> cursor_at config ext images i = Inr c
    \<and> row_position config images i = Inr t \<and> row_t ext c = Inr t
    \<and> placed config images i = Inr tr \<and> image_transform config ext c (images ! i) = Inr tr
    \<and> 1 \<le> images_per_row_eff ext
    \<and> images_per_row_eff ext =
        (if images_per_row config < 1 then int (length images) else images_per_row config)
    \<and> seen c = int i mod images_per_row_eff ext
    \<and> top_current_cm c =
        top_most_cm ext - real_of_int (int i div images_per_row_eff ext)
          * (max_image_height_cm ext + image_gap_cm ext)
    \<and> left_current_cm c =
        left_most_cm ext + real_of_int (int i mod images_per_row_eff ext)
          * (max_image_width_cm ext + image_gap_cm ext)
    \<and> total_width_cm ext =
        max ((max_image_width_cm ext + image_gap_cm ext)
          * real_of_int (images_per_row_eff ext - 1)) 0"
proof -
  from i have ne: "images \<noteq> []" by auto
  from measure_images_ok [OF ne ppi] obtain ext
    where ext: "measure_images config images = Inr ext"
      and k: "1 \<le> images_per_row_eff ext"
      and keff: "images_per_row_eff ext =
        (if images_per_row config < 1 then int (length images) else images_per_row config)"
      and tw: "total_width_cm ext =
        max ((max_image_width_cm ext + image_gap_cm ext)
          * real_of_int (images_per_row_eff ext - 1)) 0"
    by blast
  from i have "i \<le> length images" by simp
  from cursor_closed_form [OF ppi k this] obtain c0
    where c0: "place_images config ext (take i images) (initial_cursor ext) = Inr c0"
      and s: "seen (wrap_row ext c0) = int i mod images_per_row_eff ext"
      and t: "top_current_cm (wrap_row ext c0) =
        top_most_cm ext - real_of_int (int i div images_per_row_eff ext)
          * (max_image_height_cm ext + image_gap_cm ext)"
      and l: "left_current_cm (wrap_row ext c0) =
        left_most_cm ext + real_of_int (int i mod images_per_row_eff ext)
          * (max_image_width_cm ext + image_gap_cm ext)"
    by blast
  have cur: "cursor_at config ext images i = Inr (wrap_row ext c0)"
    using c0 by (simp add: cursor_at_def)
  obtain rt where rt: "row_t ext (wrap_row ext c0) = Inr rt"
    using row_t_total by blast
  from image_transform_ok [OF ppi] obtain tr
    where tr: "image_transform config ext (wrap_row ext c0) (images ! i) = Inr tr" by blast
  have "row_position config images i = Inr rt"
    using ext cur rt by (simp add: row_position_def)
  moreover have "placed config images i = Inr tr"
    using ext cur tr by (simp add: placed_def)
  ultimately show ?thesis
    using ext cur rt tr k keff s t l tw by blast
qed

lemma straight_transform:
  assumes "curve_pct config = 0" and "image_transform config ext c img = Inr tr"
  shows "vec_z (translate tr) = 0 \<and> vec_y (rotate_xyz tr) = 0"
  using assms
  by (auto simp: image_transform_def Let_def Transform_def vec_z_def vec_y_def
      split: sum.splits)

lemma circle_transform:
  assumes "curve_pct config = 1" and "image_transform config ext c img = Inr tr"
  shows "(vec_x (translate tr))\<^sup>2 + (vec_z (translate tr))\<^sup>2 = (0.5 * total_width_cm ext)\<^sup>2"
proof -
  have ppi: "ppi config \<noteq> 0"
    using assms(2) image_transform_zero_ppi [of config ext c img] by auto
  obtain t where t: "row_t ext c = Inr t"
    using row_t_total by blast
  define amp where "amp = 0.5 * total_width_cm ext"
  from image_transform_value [OF ppi t, of img] assms
  have x: "vec_x (translate tr) = amp * sin (phase_of t)"
    and z: "vec_z (translate tr) = amp * cos (phase_of t)"
    by (auto simp: vec_x_def vec_z_def amp_def)
  have "(amp * sin (phase_of t))\<^sup>2 + (amp * cos (phase_of t))\<^sup>2 =
      amp\<^sup>2 * ((sin (phase_of t))\<^sup>2 + (cos (phase_of t))\<^sup>2)"
    by (simp only: power_mult_distrib distrib_left)
  also have "\<dots> = amp\<^sup>2"
    by simp
  finally show ?thesis
    unfolding x z amp_def [symmetric] .
qed

lemma calculate_transforms_images_dom:
  assumes "calculate_transforms_images config images = Inr m"
  shows "dom m = filename ` set images"
proof (cases "images = []")
  case True
  with assms show ?thesis by (simp add: calculate_transforms_images_def)
next
  case False
  with assms obtain ext c
    where c: "place_images config ext images (initial_cursor ext) = Inr c"
      and m: "m = transforms c"
    by (auto simp: calculate_transforms_images_def split: sum.splits)
  from place_images_dom [OF c] m show ?thesis by (simp add: initial_cursor_def)
qed

lemma placed_height:
  assumes ppi: "ppi config \<noteq> 0" and i: "i < length images"
    and ext: "measure_images config images = Inr ext"
  shows "\<exists>tr. placed config images i = Inr tr
    \<and> vec_y (translate tr) =
        top_most_cm ext - real_of_int (int i div images_per_row_eff ext)
          * (max_image_height_cm ext + image_gap_cm ext)"
proof -
  from round_closed_form [OF ppi i] ext obtain c t tr
    where t: "row_t ext c = Inr t"
      and pl: "placed config images i = Inr tr"
      and tr: "image_transform config ext c (images ! i) = Inr tr"
      and top: "top_current_cm c =
        top_most_cm ext - real_of_int (int i div images_per_row_eff ext)
          * (max_image_height_cm ext + image_gap_cm ext)"
    by auto
  from image_transform_value [OF ppi t, of "images ! i"] tr
  have "vec_y (translate tr) = top_current_cm c"
    by (auto simp: vec_y_def)
  with pl top show ?thesis by simp
qed

text \<open>
  With pairwise distinct file names, what round \<open>i\<close> has stored is what the returned
  mapping holds under the name of image \<open>i\<close>.
\<close>

lemma returned_round:
  assumes ppi: "ppi config \<noteq> 0" and i: "i < length images"
    and dist: "distinct (map filename images)"
    and m: "calculate_transforms_images config images = Inr m"
    and tr: "placed config images i = Inr tr"
  shows "m (filename (images ! i)) = Some tr"
  using placed_is_returned [OF ppi dist i] m tr by auto

section \<open>The claims\<close>

text \<open>
  C1: every pixel dimension is to become \<open>(pixels / ppi) * 2.54\<close> centimetres, in the scale
  of each image and in the largest width and height. The code multiplies by
  \<open>INCHES_TO_CM = 1.54\<close> instead: one image of 300 by 600 pixels at 300 pixels per inch
  gets the scale \<open>(1.54, 3.08, 1)\<close>, and the largest width and height are 1.54 and 3.08,
  where 2.54 centimetres per inch give \<open>(2.54, 5.08, 1)\<close>.
\<close>

theorem inch_constant_is_1_54: "calculate_transforms_images (params 300 0 0 0) [picture ''a.png'' 300 600] =
      Inr [''a.png'' \<mapsto>
        \<lparr>translate = (0, 0, 0), scale = (1.54, 3.08, 1), rotate_xyz = (0, 0, 0)\<rparr>]
    \<and> measure_images (params 300 0 0 0) [picture ''a.png'' 300 600] =
      Inr \<lparr>max_image_width_cm = 1.54, max_image_height_cm = 3.08, images_per_row_eff = 1,
           total_rows = 1, image_gap_cm = 0, total_width_cm = 0, total_height_cm = 0,
           left_most_cm = 0, top_most_cm = 0\<rparr>"
  by (simp add: layout_simps)

text \<open>
  C2: three images of 300 by 300 pixels at 300 pixels per inch, gap 0.1, curve 0 and three
  images per row are to lie at x = -2.794, 0 and 2.794 with scale \<open>(2.54, 2.54, 1)\<close>.
  With \<open>INCHES_TO_CM = 1.54\<close> the code puts them at x = -1.694, 0 and 1.694 with scale
  \<open>(1.54, 1.54, 1)\<close>; y, z and the rotation are 0 as the claim says.
\<close>

theorem three_squares_layout: "calculate_transforms_images (params 300 0.1 0 3)
      [picture ''a.png'' 300 300, picture ''b.png'' 300 300, picture ''c.png'' 300 300] =
    Inr [''a.png'' \<mapsto>
           \<lparr>translate = (- 1.694, 0, 0), scale = (1.54, 1.54, 1), rotate_xyz = (0, 0, 0)\<rparr>,
         ''b.png'' \<mapsto>
           \<lparr>translate = (0, 0, 0), scale = (1.54, 1.54, 1), rotate_xyz = (0, 0, 0)\<rparr>,
         ''c.png'' \<mapsto>
           \<lparr>translate = (1.694, 0, 0), scale = (1.54, 1.54, 1), rotate_xyz = (0, 0, 0)\<rparr>]"
  by (simp add: layout_simps)

text \<open>
  C3, as stated, fails: the claim takes the yaw to be
  \<open>- curve_pct * degrees (2 * pi - phase)\<close>. For a single image with \<open>curve_pct = 1\<close>
  the row position is 0 and the phase \<open>1.5 * pi\<close>; the code stores the yaw 90, the
  claimed formula gives -90.
\<close>

theorem yaw_full_circle_counterexample:
  "placed (params 300 0 1 0) [picture ''a.png'' 300 300] 0 =
      Inr \<lparr>translate = (0, 0, 0), scale = (1.54, 1.54, 1), rotate_xyz = (0, 90, 0)\<rparr>
   \<and> calculate_transforms_images (params 300 0 1 0) [picture ''a.png'' 300 300] =
      Inr [''a.png'' \<mapsto>
        \<lparr>translate = (0, 0, 0), scale = (1.54, 1.54, 1), rotate_xyz = (0, 90, 0)\<rparr>]
   \<and> row_position (params 300 0 1 0) [picture ''a.png'' 300 300] 0 = Inr 0
   \<and> - curve_pct (params 300 0 1 0) * degrees (2 * pi - ((1 - 0) * pi + 0.25 * (2 * pi))) = - 90"
  by (simp add: layout_simps)

text \<open>
  C3, amended: for images with pairwise distinct file names, the transform that the
  returned mapping holds for an image has the yaw
  \<open>- curve_pct * degrees (0.5 * tau - phase)\<close>, half a circle less the phase (line 130),
  where \<open>tau = 2 * pi\<close> and \<open>phase = (1 - t) * pi + 0.25 * tau\<close> for the row position
  \<open>t\<close> of the image; the rotations around the other two axes are 0.
\<close>

theorem yaw_half_circle:
  assumes "ppi config \<noteq> 0" and "i < length images" and "distinct (map filename images)"
  shows "\<exists>m t tr. calculate_transforms_images config images = Inr m
    \<and> m (filename (images ! i)) = Some tr
    \<and> row_position config images i = Inr t
    \<and> rotate_xyz tr = (0, - curve_pct config * degrees (0.5 * tau - phase_of t), 0)
    \<and> phase_of t = (1 - t) * pi + 0.25 * tau \<and> tau = 2 * pi"
proof -
  from round_closed_form [OF assms(1,2)] obtain ext c t tr
    where pos: "row_position config images i = Inr t" and t: "row_t ext c = Inr t"
      and pl: "placed config images i = Inr tr"
      and tr: "image_transform config ext c (images ! i) = Inr tr"
    by blast
  from calculate_transforms_images_ok [of config images] assms(1) obtain m
    where m: "calculate_transforms_images config images = Inr m" by blast
  have key: "m (filename (images ! i)) = Some tr"
    using returned_round [OF assms(1,2,3) m pl] .
  from image_transform_value [OF assms(1) t, of "images ! i"] tr
  have "rotate_xyz tr = (0, - curve_pct config * degrees (- phase_of t + 0.5 * tau), 0)"
    by auto
  then have yaw: "rotate_xyz tr = (0, - curve_pct config * degrees (0.5 * tau - phase_of t), 0)"
    by (simp add: algebra_simps)
  have ph: "phase_of t = (1 - t) * pi + 0.25 * tau"
    by (simp add: phase_of_def tau_def)
  have "tau = 2 * pi" by (simp add: tau_def)
  with m key pos yaw ph show ?thesis by blast
qed

text \<open>The hypotheses of C3 hold at a concrete input.\<close>

theorem yaw_half_circle_witness:
  "ppi (params 300 0 1 0) \<noteq> 0
   \<and> 1 < length [picture ''a.png'' 300 300, picture ''b.png'' 300 300]
   \<and> distinct (map filename [picture ''a.png'' 300 300, picture ''b.png'' 300 300])
   \<and> (\<exists>m t tr. calculate_transforms_images (params 300 0 1 0)
          [picture ''a.png'' 300 300, picture ''b.png'' 300 300] = Inr m
        \<and> m ''b.png'' = Some tr
        \<and> row_position (params 300 0 1 0)
          [picture ''a.png'' 300 300, picture ''b.png'' 300 300] 1 = Inr t
        \<and> t = 1
        \<and> rotate_xyz tr = (0, - curve_pct (params 300 0 1 0) * degrees (0.5 * tau - phase_of t), 0)
        \<and> rotate_xyz tr = (0, - 90, 0))"
proof -
  let ?config = "params 300 0 1 0"
  let ?images = "[picture ''a.png'' 300 300, picture ''b.png'' 300 300]"
  have a: "ppi ?config \<noteq> 0" by (simp add: params_def)
  have b: "1 < length ?images" by simp
  have c: "distinct (map filename ?images)" by (simp add: picture_def)
  from yaw_half_circle [OF a b c] obtain m t tr
    where m: "calculate_transforms_images ?config ?images = Inr m"
      and key: "m (filename (?images ! 1)) = Some tr"
      and pos: "row_position ?config ?images 1 = Inr t"
      and yaw: "rotate_xyz tr = (0, - curve_pct ?config * degrees (0.5 * tau - phase_of t), 0)"
    by blast
  from key have key': "m ''b.png'' = Some tr" by (simp add: picture_def)
  have "row_position ?config ?images 1 = Inr 1"
    by (simp add: layout_simps)
  with pos have t1: "t = 1" by simp
  have "- curve_pct ?config * degrees (0.5 * tau - phase_of 1) = - 90"
    by (simp add: layout_simps)
  with yaw t1 have "rotate_xyz tr = (0, - 90, 0)" by simp
  with a b c m key' pos yaw t1 show ?thesis by blast
qed

text \<open>
  C4, as stated, fails: there is no check of \<open>ppi\<close>. With \<open>ppi = -300\<close> no error is
  raised; the image gets a negative scale.
\<close>

theorem negative_ppi_counterexample:
  "calculate_transforms_images (params (- 300) 0 0 0) [picture ''a.png'' 300 300] =
    Inr [''a.png'' \<mapsto>
      \<lparr>translate = (0, 0, 0), scale = (- 1.54, - 1.54, 1), rotate_xyz = (0, 0, 0)\<rparr>]"
  by (simp add: layout_simps)

text \<open>
  C4, amended: for every non-empty list of images, \<open>ppi = 0\<close> raises Python's
  \<^verbatim>\<open>ZeroDivisionError\<close> (at the first division, line 76, before any transform is
  computed), and this is the only failure: with any other \<open>ppi\<close>, a negative one
  included, a mapping is returned.
\<close>

theorem zero_ppi_raises:
  assumes "images \<noteq> []"
  shows "(calculate_transforms_images config images = Inl ZeroDivisionError) = (ppi config = 0)
    \<and> (\<exists>m. calculate_transforms_images config images = Inr m) = (ppi config \<noteq> 0)"
proof (cases "ppi config = 0")
  case True
  from measure_images_zero_ppi [OF assms True]
  have "calculate_transforms_images config images = Inl ZeroDivisionError"
    using assms by (simp add: calculate_transforms_images_def)
  with True show ?thesis by simp
next
  case False
  then obtain m where "calculate_transforms_images config images = Inr m"
    using calculate_transforms_images_ok by blast
  with False show ?thesis by simp
qed

text \<open>The hypotheses of C4 hold at a concrete input.\<close>

theorem zero_ppi_raises_witness:
  "[picture ''a.png'' 300 300] \<noteq> []
   \<and> ppi (params 0 0 0 0) = 0
   \<and> calculate_transforms_images (params 0 0 0 0) [picture ''a.png'' 300 300] =
        Inl ZeroDivisionError
   \<and> ppi (params (- 300) 0 0 0) \<noteq> 0
   \<and> (\<exists>m. calculate_transforms_images (params (- 300) 0 0 0) [picture ''a.png'' 300 300] = Inr m)"
proof -
  have ne: "[picture ''a.png'' 300 300] \<noteq> []" by simp
  have z: "ppi (params 0 0 0 0) = 0" by (simp add: params_def)
  have n: "ppi (params (- 300) 0 0 0) \<noteq> 0" by (simp add: params_def)
  from zero_ppi_raises [OF ne, of "params 0 0 0 0"] z
  have "calculate_transforms_images (params 0 0 0 0) [picture ''a.png'' 300 300] =
      Inl ZeroDivisionError" by simp
  moreover from zero_ppi_raises [OF ne, of "params (- 300) 0 0 0"] n
  have "\<exists>m. calculate_transforms_images (params (- 300) 0 0 0) [picture ''a.png'' 300 300] = Inr m"
    by simp
  ultimately show ?thesis using ne z n by blast
qed

text \<open>
  C5: with \<open>curve_pct = 0\<close> the layout is returned (unless \<open>ppi = 0\<close> stops a non-empty
  input), and every transform of it has z translation 0 and y rotation 0, whatever the
  images and the other parameters are.
\<close>

theorem straight_line_flat:
  assumes "curve_pct config = 0" and "ppi config \<noteq> 0 \<or> images = []"
  shows "\<exists>m. calculate_transforms_images config images = Inr m
    \<and> (\<forall>tr \<in> ran m. vec_z (translate tr) = 0 \<and> vec_y (rotate_xyz tr) = 0)"
proof (cases "images = []")
  case True
  then show ?thesis by (simp add: calculate_transforms_images_def)
next
  case False
  with assms(2) have ppi: "ppi config \<noteq> 0" by simp
  from measure_images_ok [OF False ppi] obtain ext
    where ext: "measure_images config images = Inr ext" by blast
  from place_images_total [OF ppi] obtain c
    where c: "place_images config ext images (initial_cursor ext) = Inr c" by blast
  have "vec_z (translate tr) = 0 \<and> vec_y (rotate_xyz tr) = 0"
    if "tr \<in> ran (transforms c)" for tr
  proof (rule place_images_ran [OF c _ _ that])
    show "vec_z (translate u) = 0 \<and> vec_y (rotate_xyz u) = 0"
      if "image_transform config ext c0 img = Inr u" for c0 img u
      using straight_transform [OF assms(1) that] .
    show "vec_z (translate u) = 0 \<and> vec_y (rotate_xyz u) = 0"
      if "u \<in> ran (transforms (initial_cursor ext))" for u
      using that by (simp add: initial_cursor_def)
  qed
  moreover have "calculate_transforms_images config images = Inr (transforms c)"
    using False ext c by (simp add: calculate_transforms_images_def)
  ultimately show ?thesis by blast
qed

text \<open>The hypotheses of C5 hold at a concrete input.\<close>

theorem straight_line_flat_witness:
  "curve_pct (params 100 0.5 0 2) = 0 \<and> ppi (params 100 0.5 0 2) \<noteq> 0
   \<and> (\<exists>m. calculate_transforms_images (params 100 0.5 0 2)
          [picture ''a.png'' 640 480, picture ''b.png'' 320 200, picture ''c.png'' 100 100] = Inr m
        \<and> m ''c.png'' \<noteq> None
        \<and> (\<forall>tr \<in> ran m. vec_z (translate tr) = 0 \<and> vec_y (rotate_xyz tr) = 0))"
proof -
  let ?config = "params 100 0.5 0 2"
  let ?images = "[picture ''a.png'' 640 480, picture ''b.png'' 320 200, picture ''c.png'' 100 100]"
  have a: "curve_pct ?config = 0" by (simp add: params_def)
  have b: "ppi ?config \<noteq> 0 \<or> ?images = []" by (simp add: params_def)
  from straight_line_flat [OF a b] obtain m
    where m: "calculate_transforms_images ?config ?images = Inr m"
      and flat: "\<forall>tr \<in> ran m. vec_z (translate tr) = 0 \<and> vec_y (rotate_xyz tr) = 0"
    by blast
  have "dom m = filename ` set ?images"
  proof -
    have "?images \<noteq> []" by simp
    moreover have "ppi ?config \<noteq> 0" by (simp add: params_def)
    ultimately obtain ext where ext: "measure_images ?config ?images = Inr ext"
      using measure_images_ok by blast
    with m obtain c where c: "place_images ?config ext ?images (initial_cursor ext) = Inr c"
      and mc: "m = transforms c"
      by (auto simp: calculate_transforms_images_def split: sum.splits)
    from place_images_dom [OF c] mc show ?thesis by (simp add: initial_cursor_def)
  qed
  then have "m ''c.png'' \<noteq> None" by (auto simp: picture_def)
  with a m flat show ?thesis by (simp add: params_def)
qed

text \<open>
  C6: with \<open>curve_pct = 1\<close> every translation of the returned layout satisfies
  \<open>x\<^sup>2 + z\<^sup>2 = (0.5 * total_width_cm)\<^sup>2\<close>: the images lie on the circle of radius
  half the total width. This holds for a positive total width, as the claim has it, and
  for the total width 0 as well, where both sides are 0.
\<close>

theorem full_curve_on_circle:
  assumes "curve_pct config = 1" and "ppi config \<noteq> 0" and "images \<noteq> []"
  shows "\<exists>ext m. measure_images config images = Inr ext
    \<and> calculate_transforms_images config images = Inr m
    \<and> (\<forall>tr \<in> ran m.
          (vec_x (translate tr))\<^sup>2 + (vec_z (translate tr))\<^sup>2 = (0.5 * total_width_cm ext)\<^sup>2)"
proof -
  from measure_images_ok [OF assms(3) assms(2)] obtain ext
    where ext: "measure_images config images = Inr ext" by blast
  from place_images_total [OF assms(2)] obtain c
    where c: "place_images config ext images (initial_cursor ext) = Inr c" by blast
  have "(vec_x (translate tr))\<^sup>2 + (vec_z (translate tr))\<^sup>2 = (0.5 * total_width_cm ext)\<^sup>2"
    if "tr \<in> ran (transforms c)" for tr
  proof (rule place_images_ran [OF c _ _ that])
    show "(vec_x (translate u))\<^sup>2 + (vec_z (translate u))\<^sup>2 = (0.5 * total_width_cm ext)\<^sup>2"
      if "image_transform config ext c0 img = Inr u" for c0 img u
      using circle_transform [OF assms(1) that] .
    show "(vec_x (translate u))\<^sup>2 + (vec_z (translate u))\<^sup>2 = (0.5 * total_width_cm ext)\<^sup>2"
      if "u \<in> ran (transforms (initial_cursor ext))" for u
      using that by (simp add: initial_cursor_def)
  qed
  moreover have "calculate_transforms_images config images = Inr (transforms c)"
    using assms(3) ext c by (simp add: calculate_transforms_images_def)
  ultimately show ?thesis using ext by blast
qed

text \<open>The hypotheses of C6 hold at a concrete input.\<close>

theorem full_curve_on_circle_witness:
  "curve_pct (params 300 0.1 1 0) = 1 \<and> ppi (params 300 0.1 1 0) \<noteq> 0
   \<and> [picture ''a.png'' 300 300, picture ''b.png'' 600 300] \<noteq> []
   \<and> (\<exists>ext m. measure_images (params 300 0.1 1 0)
          [picture ''a.png'' 300 300, picture ''b.png'' 600 300] = Inr ext
        \<and> calculate_transforms_images (params 300 0.1 1 0)
          [picture ''a.png'' 300 300, picture ''b.png'' 600 300] = Inr m
        \<and> total_width_cm ext = 3.388
        \<and> m ''a.png'' \<noteq> None
        \<and> (\<forall>tr \<in> ran m.
              (vec_x (translate tr))\<^sup>2 + (vec_z (translate tr))\<^sup>2 = (0.5 * total_width_cm ext)\<^sup>2))"
proof -
  let ?config = "params 300 0.1 1 0"
  let ?images = "[picture ''a.png'' 300 300, picture ''b.png'' 600 300]"
  have a: "curve_pct ?config = 1" by (simp add: params_def)
  have b: "ppi ?config \<noteq> 0" by (simp add: params_def)
  have c: "?images \<noteq> []" by simp
  from full_curve_on_circle [OF a b c] obtain ext m
    where ext: "measure_images ?config ?images = Inr ext"
      and m: "calculate_transforms_images ?config ?images = Inr m"
      and circle: "\<forall>tr \<in> ran m.
        (vec_x (translate tr))\<^sup>2 + (vec_z (translate tr))\<^sup>2 = (0.5 * total_width_cm ext)\<^sup>2"
    by blast
  have "map_sum id total_width_cm (measure_images ?config ?images) = Inr 3.388"
    by (simp add: layout_simps)
  with ext have w: "total_width_cm ext = 3.388" by simp
  from calculate_transforms_images_dom [OF m] have key: "m ''a.png'' \<noteq> None"
    by (auto simp: picture_def)
  from a b c ext m w key circle show ?thesis by blast
qed

text \<open>
  C7: with \<open>k = images_per_row\<close> at least 1, more than \<open>k\<close> images and pairwise
  distinct file names, the returned mapping gives the images at indices 0 to \<open>k - 1\<close>
  the same y translation, \<open>top_most_cm\<close>, and the image at index \<open>k\<close> one that is
  \<open>max_image_height_cm + image_gap_cm\<close> lower. Images that share a file name share one
  entry of the mapping, so the names have to differ.
\<close>

theorem row_wrapping:
  assumes ppi: "ppi config \<noteq> 0" and k: "1 \<le> images_per_row config"
    and n: "nat (images_per_row config) < length images"
    and dist: "distinct (map filename images)"
  shows "\<exists>ext m. measure_images config images = Inr ext
    \<and> calculate_transforms_images config images = Inr m
    \<and> (\<forall>i < nat (images_per_row config). \<exists>tr. m (filename (images ! i)) = Some tr
          \<and> vec_y (translate tr) = top_most_cm ext)
    \<and> (\<exists>tr. m (filename (images ! nat (images_per_row config))) = Some tr
          \<and> vec_y (translate tr) =
              top_most_cm ext - (max_image_height_cm ext + image_gap_cm ext))"
proof -
  from n have ne: "images \<noteq> []" by auto
  from measure_images_ok [OF ne ppi] k obtain ext
    where ext: "measure_images config images = Inr ext"
      and keff: "images_per_row_eff ext = images_per_row config"
    by auto
  from calculate_transforms_images_ok [of config images] ppi obtain m
    where m: "calculate_transforms_images config images = Inr m" by blast
  have first: "\<exists>tr. m (filename (images ! i)) = Some tr
      \<and> vec_y (translate tr) = top_most_cm ext"
    if "i < nat (images_per_row config)" for i
  proof -
    from that n have i: "i < length images" by simp
    from that have "int i < images_per_row config" by simp
    then have "int i div images_per_row_eff ext = 0"
      unfolding keff by simp
    with placed_height [OF ppi i ext] obtain tr
      where pl: "placed config images i = Inr tr"
        and y: "vec_y (translate tr) = top_most_cm ext" by auto
    from returned_round [OF ppi i dist m pl] y show ?thesis by blast
  qed
  have "int (nat (images_per_row config)) div images_per_row_eff ext = 1"
    using k unfolding keff by simp
  with placed_height [OF ppi n ext] obtain tr
    where pl: "placed config images (nat (images_per_row config)) = Inr tr"
      and y: "vec_y (translate tr) =
        top_most_cm ext - (max_image_height_cm ext + image_gap_cm ext)" by auto
  from returned_round [OF ppi n dist m pl] y
  have "\<exists>tr. m (filename (images ! nat (images_per_row config))) = Some tr
      \<and> vec_y (translate tr) = top_most_cm ext - (max_image_height_cm ext + image_gap_cm ext)"
    by blast
  with ext m first show ?thesis by blast
qed

text \<open>The hypotheses of C7 hold at a concrete input.\<close>

theorem row_wrapping_witness:
  "ppi (params 300 0.1 0.5 2) \<noteq> 0 \<and> 1 \<le> images_per_row (params 300 0.1 0.5 2)
   \<and> nat (images_per_row (params 300 0.1 0.5 2))
       < length [picture ''a.png'' 300 300, picture ''b.png'' 300 600, picture ''c.png'' 300 300]
   \<and> distinct (map filename
        [picture ''a.png'' 300 300, picture ''b.png'' 300 600, picture ''c.png'' 300 300])
   \<and> (\<exists>ext m tr0 tr1 tr2.
        measure_images (params 300 0.1 0.5 2)
          [picture ''a.png'' 300 300, picture ''b.png'' 300 600, picture ''c.png'' 300 300] = Inr ext
        \<and> calculate_transforms_images (params 300 0.1 0.5 2)
          [picture ''a.png'' 300 300, picture ''b.png'' 300 600, picture ''c.png'' 300 300] = Inr m
        \<and> m ''a.png'' = Some tr0 \<and> m ''b.png'' = Some tr1 \<and> m ''c.png'' = Some tr2
        \<and> vec_y (translate tr0) = top_most_cm ext
        \<and> vec_y (translate tr1) = top_most_cm ext
        \<and> vec_y (translate tr2) =
            top_most_cm ext - (max_image_height_cm ext + image_gap_cm ext)
        \<and> top_most_cm ext = 1.617
        \<and> max_image_height_cm ext + image_gap_cm ext = 3.234)"
proof -
  let ?config = "params 300 0.1 0.5 2"
  let ?images = "[picture ''a.png'' 300 300, picture ''b.png'' 300 600, picture ''c.png'' 300 300]"
  have a: "ppi ?config \<noteq> 0" by (simp add: params_def)
  have b: "1 \<le> images_per_row ?config" by (simp add: params_def)
  have k2: "nat (images_per_row ?config) = 2" by (simp add: params_def)
  have c: "nat (images_per_row ?config) < length ?images" unfolding k2 by simp
  have d: "distinct (map filename ?images)" by (simp add: picture_def)
  from row_wrapping [OF a b c d] obtain ext m
    where ext: "measure_images ?config ?images = Inr ext"
      and m: "calculate_transforms_images ?config ?images = Inr m"
      and first: "\<forall>i < nat (images_per_row ?config). \<exists>tr. m (filename (?images ! i)) = Some tr
          \<and> vec_y (translate tr) = top_most_cm ext"
      and next_row: "\<exists>tr. m (filename (?images ! nat (images_per_row ?config))) = Some tr
          \<and> vec_y (translate tr) =
              top_most_cm ext - (max_image_height_cm ext + image_gap_cm ext)"
    by blast
  have zero: "(0::nat) < 2" and one: "(1::nat) < 2" by simp_all
  from first [unfolded k2, rule_format, OF zero] obtain tr0
    where p0: "m ''a.png'' = Some tr0" "vec_y (translate tr0) = top_most_cm ext"
    by (auto simp: picture_def)
  from first [unfolded k2, rule_format, OF one] obtain tr1
    where p1: "m ''b.png'' = Some tr1" "vec_y (translate tr1) = top_most_cm ext"
    by (auto simp: picture_def)
  from next_row [unfolded k2] obtain tr2
    where p2: "m ''c.png'' = Some tr2"
      "vec_y (translate tr2) = top_most_cm ext - (max_image_height_cm ext + image_gap_cm ext)"
    by (auto simp: picture_def)
  have "map_sum id (\<lambda>e. (top_most_cm e, max_image_height_cm e + image_gap_cm e))
      (measure_images ?config ?images) = Inr (1.617, 3.234)"
    by (simp add: layout_simps)
  with ext have v: "top_most_cm ext = 1.617" "max_image_height_cm ext + image_gap_cm ext = 3.234"
    by simp_all
  from a b c d ext m p0 p1 p2 v show ?thesis by blast
qed

text \<open>
  C8: for images with pairwise distinct file names, the returned mapping has exactly one
  entry per image, under the file name of that image: its keys are the file names, and
  there are as many as images. This holds for any number of images, none included.
\<close>

theorem one_entry_per_image:
  assumes "distinct (map filename images)" and "ppi config \<noteq> 0 \<or> images = []"
  shows "\<exists>m. calculate_transforms_images config images = Inr m
    \<and> dom m = filename ` set images \<and> card (dom m) = length images"
proof (cases "images = []")
  case True
  then show ?thesis by (simp add: calculate_transforms_images_def)
next
  case False
  with assms(2) have ppi: "ppi config \<noteq> 0" by simp
  from measure_images_ok [OF False ppi] obtain ext
    where ext: "measure_images config images = Inr ext" by blast
  from place_images_total [OF ppi] obtain c
    where c: "place_images config ext images (initial_cursor ext) = Inr c" by blast
  have m: "calculate_transforms_images config images = Inr (transforms c)"
    using False ext c by (simp add: calculate_transforms_images_def)
  have d: "dom (transforms c) = filename ` set images"
    using place_images_dom [OF c] by (simp add: initial_cursor_def)
  have "card (filename ` set images) = length images"
    using assms(1) by (metis distinct_card length_map set_map)
  with m d show ?thesis by simp
qed

text \<open>The hypotheses of C8 hold at a concrete input.\<close>

theorem one_entry_per_image_witness:
  "distinct (map filename [picture ''a.png'' 300 300, picture ''b.png'' 600 300])
   \<and> ppi (params 300 0.1 1 0) \<noteq> 0
   \<and> (\<exists>m. calculate_transforms_images (params 300 0.1 1 0)
          [picture ''a.png'' 300 300, picture ''b.png'' 600 300] = Inr m
        \<and> dom m = {''a.png'', ''b.png''} \<and> card (dom m) = 2)"
proof -
  let ?config = "params 300 0.1 1 0"
  let ?images = "[picture ''a.png'' 300 300, picture ''b.png'' 600 300]"
  have a: "distinct (map filename ?images)" by (simp add: picture_def)
  have b: "ppi ?config \<noteq> 0 \<or> ?images = []" by (simp add: params_def)
  from one_entry_per_image [OF a b] obtain m
    where "calculate_transforms_images ?config ?images = Inr m"
      and "dom m = filename ` set ?images" and "card (dom m) = length ?images"
    by blast
  then have "calculate_transforms_images ?config ?images = Inr m
      \<and> dom m = {''a.png'', ''b.png''} \<and> card (dom m) = 2"
    by (simp add: picture_def)
  with a b show ?thesis by (simp add: params_def)
qed

text \<open>
  C9: for every configuration, also one with an invalid \<open>ppi\<close>, the layout of the empty
  list of images is the empty mapping, and no error is raised (lines 72 and 73).
\<close>

theorem empty_input_empty_mapping:
  "calculate_transforms_images config [] = Inr Map.empty"
  by (simp add: calculate_transforms_images_def)

text \<open>
  C10: for a positive \<open>ppi\<close>, the row position \<open>t\<close> of every image is computed without
  a division by zero: no \<^verbatim>\<open>ZeroDivisionError\<close> arises, \<open>t\<close> is the quotient by
  \<open>total_width_cm\<close> where that is positive and 0 otherwise. Moreover \<open>t\<close> lies between 0
  and 1; this needs no condition on \<open>gap_pct\<close>, so it holds for a non-negative one.
\<close>

theorem row_position_in_unit_interval:
  assumes ppi: "0 < ppi config" and i: "i < length images"
  shows "\<exists>ext c t. measure_images config images = Inr ext
    \<and> cursor_at config ext images i = Inr c
    \<and> row_t ext c = Inr t \<and> row_position config images i = Inr t
    \<and> t = (if 0 < total_width_cm ext
            then (left_current_cm c - left_most_cm ext) / total_width_cm ext else 0)
    \<and> 0 \<le> t \<and> t \<le> 1
    \<and> (\<exists>m. calculate_transforms_images config images = Inr m)"
proof -
  from ppi have nz: "ppi config \<noteq> 0" by simp
  from round_closed_form [OF nz i] obtain ext c t
    where ext: "measure_images config images = Inr ext"
      and cur: "cursor_at config ext images i = Inr c"
      and pos: "row_position config images i = Inr t" and t: "row_t ext c = Inr t"
      and k: "1 \<le> images_per_row_eff ext"
      and l: "left_current_cm c =
        left_most_cm ext + real_of_int (int i mod images_per_row_eff ext)
          * (max_image_width_cm ext + image_gap_cm ext)"
      and tw: "total_width_cm ext =
        max ((max_image_width_cm ext + image_gap_cm ext)
          * real_of_int (images_per_row_eff ext - 1)) 0"
    by blast
  define d where "d = max_image_width_cm ext + image_gap_cm ext"
  define col where "col = real_of_int (int i mod images_per_row_eff ext)"
  define last where "last = real_of_int (images_per_row_eff ext - 1)"
  have col0: "0 \<le> col"
    using k by (simp add: col_def)
  have "int i mod images_per_row_eff ext < images_per_row_eff ext"
    using k by simp
  then have "int i mod images_per_row_eff ext \<le> images_per_row_eff ext - 1"
    by simp
  then have col1: "col \<le> last"
    unfolding col_def last_def by (rule of_int_le_iff [THEN iffD2])
  have last0: "0 \<le> last"
    using k by (simp add: last_def)
  have diff: "left_current_cm c - left_most_cm ext = col * d"
    using l by (simp add: col_def d_def)
  have tw': "total_width_cm ext = max (d * last) 0"
    using tw by (simp add: d_def last_def)
  have val: "t = (if 0 < total_width_cm ext
      then (left_current_cm c - left_most_cm ext) / total_width_cm ext else 0)"
    using t row_t_total [of ext c] by simp
  have range: "0 \<le> t \<and> t \<le> 1"
  proof (cases "0 < total_width_cm ext")
    case False
    with val show ?thesis by simp
  next
    case True
    with tw' have pos_w: "0 < d * last" and w: "total_width_cm ext = d * last"
      by (simp_all add: max_def split: if_splits)
    from pos_w last0 have d0: "0 < d"
      by (simp add: zero_less_mult_iff)
    from True val diff w have tv: "t = col * d / (d * last)" by simp
    have "0 \<le> col * d" using col0 d0 by simp
    then have lo: "0 \<le> t" unfolding tv using pos_w by (rule divide_nonneg_pos)
    have "col * d \<le> d * last" using col1 d0 by (simp add: mult.commute)
    moreover from pos_w have "(col * d / (d * last) \<le> 1) = (col * d \<le> d * last)"
      by (rule divide_le_eq_1_pos)
    ultimately have hi: "t \<le> 1" unfolding tv by blast
    from lo hi show ?thesis ..
  qed
  from calculate_transforms_images_ok [of config images] nz
  obtain m where "calculate_transforms_images config images = Inr m" by blast
  with ext cur t pos val range show ?thesis by blast
qed

text \<open>The hypotheses of C10 hold at a concrete input.\<close>

theorem row_position_in_unit_interval_witness:
  "0 < ppi (params 300 0.1 0.5 2)
   \<and> 1 < length [picture ''a.png'' 300 300, picture ''b.png'' 300 600, picture ''c.png'' 300 300]
   \<and> (\<exists>ext c t. measure_images (params 300 0.1 0.5 2)
          [picture ''a.png'' 300 300, picture ''b.png'' 300 600, picture ''c.png'' 300 300] = Inr ext
        \<and> cursor_at (params 300 0.1 0.5 2) ext
          [picture ''a.png'' 300 300, picture ''b.png'' 300 600, picture ''c.png'' 300 300] 1 = Inr c
        \<and> row_t ext c = Inr t
        \<and> 0 < total_width_cm ext
        \<and> t = (left_current_cm c - left_most_cm ext) / total_width_cm ext
        \<and> t = 1 \<and> 0 \<le> t \<and> t \<le> 1)"
proof -
  let ?config = "params 300 0.1 0.5 2"
  let ?images = "[picture ''a.png'' 300 300, picture ''b.png'' 300 600, picture ''c.png'' 300 300]"
  have a: "0 < ppi ?config" by (simp add: params_def)
  have b: "1 < length ?images" by simp
  from row_position_in_unit_interval [OF a b] obtain ext c t
    where ext: "measure_images ?config ?images = Inr ext"
      and cur: "cursor_at ?config ext ?images 1 = Inr c"
      and t: "row_t ext c = Inr t" and pos: "row_position ?config ?images 1 = Inr t"
      and val: "t = (if 0 < total_width_cm ext
            then (left_current_cm c - left_most_cm ext) / total_width_cm ext else 0)"
      and range: "0 \<le> t" "t \<le> 1"
    by blast
  have "map_sum id total_width_cm (measure_images ?config ?images) = Inr 1.694"
    by (simp add: layout_simps)
  with ext have w: "0 < total_width_cm ext" by simp
  have "row_position ?config ?images 1 = Inr 1"
    by (simp add: layout_simps)
  with pos have t1: "t = 1" by simp
  from val w have "t = (left_current_cm c - left_most_cm ext) / total_width_cm ext" by simp
  with a b ext cur t w t1 range show ?thesis by blast
qed

end
